theory Spec2Isabelle
  imports Main "HOL-Library.Sublist"
begin

section \<open>The checkers rules engine of \<open>game.service.ts\<close>\<close>

text \<open>
  The class \<open>GameService\<close> keeps four mutable fields and offers \<open>initializeBoard\<close>,
  \<open>selectPiece\<close> and \<open>movePiece\<close>. The fields become a record, every method a function
  from the state before the call to the outcome of the call and the state after it.
  Cells are the string tags of the source (\<open>''''\<close>, \<open>''red''\<close>, \<open>''black''\<close>,
  \<open>''red-king''\<close>, \<open>''black-king''\<close>), coordinates are integers.
\<close>

subsection \<open>JavaScript strings and array reads\<close>

text \<open>\<open>s.startsWith(p)\<close> and \<open>s.includes(p)\<close>.\<close>

definition js_startsWith :: "string \<Rightarrow> string \<Rightarrow> bool" where
  "js_startsWith s p = prefix p s"

definition js_includes :: "string \<Rightarrow> string \<Rightarrow> bool" where
  "js_includes s p = sublist p s"

text \<open>
  The only exception the engine can raise: a property read on \<open>undefined\<close> or the
  destructuring of \<open>null\<close>.
\<close>

datatype error = TypeError

text \<open>
  \<open>xs[i]\<close> for an integer \<open>i\<close>: the element, or \<open>undefined\<close> (here \<open>None\<close>) when \<open>i\<close> is
  not an index of the array.
\<close>

definition index :: "'a list \<Rightarrow> int \<Rightarrow> 'a option" where
  "index xs i = (if 0 \<le> i \<and> i < int (length xs) then Some (xs ! nat i) else None)"

text \<open>
  \<open>this.board[row][col]\<close>: reading \<open>[col]\<close> of an undefined row throws; a column that is
  not there gives \<open>undefined\<close>.
\<close>

definition cell :: "string list list \<Rightarrow> int \<Rightarrow> int \<Rightarrow> error + string option" where
  "cell b row col =
     (case index b row of
        None \<Rightarrow> Inl TypeError
      | Some r \<Rightarrow> Inr (index r col))"

text \<open>
  \<open>this.board[row][col] = v\<close>. The engine only ever assigns to a cell it has read a
  string from in the same call (see \<open>isValidMove_True_cells\<close> below), so the
  assignment is always inside the grid and is a plain list update.
\<close>

definition set_cell :: "string list list \<Rightarrow> int \<Rightarrow> int \<Rightarrow> string \<Rightarrow> string list list" where
  "set_cell b row col v = b[nat row := (b ! nat row)[nat col := v]]"

subsection \<open>The state and its operations\<close>

record state =
  board :: "string list list"
  currentPlayer :: string
  selectedPiece :: "(int \<times> int) option"
  gameOver :: bool

text \<open>
  The outcome of a call: the returned boolean or the exception thrown, together with
  the fields as the call leaves them.
\<close>

type_synonym outcome = "(error + bool) \<times> state"

definition initializeBoard :: "state \<Rightarrow> state" where
  "initializeBoard s =
     s\<lparr>board :=
         map (\<lambda>row. map (\<lambda>col.
                if row < 3 \<and> (row + col) mod 2 = 1 then ''black''
                else if row > 4 \<and> (row + col) mod 2 = 1 then ''red''
                else '''') [0..<8::nat]) [0..<8::nat],
       currentPlayer := ''red'',
       selectedPiece := None,
       gameOver := False\<rparr>"

text \<open>The field initialisers followed by the constructor's call of \<open>initializeBoard\<close>.\<close>

definition new_GameService :: state where
  "new_GameService =
     initializeBoard \<lparr>board = [], currentPlayer = ''red'', selectedPiece = None, gameOver = False\<rparr>"

definition selectPiece :: "state \<Rightarrow> int \<Rightarrow> int \<Rightarrow> outcome" where
  "selectPiece s row col =
     (case cell (board s) row col of
        Inl e \<Rightarrow> (Inl e, s)
      | Inr None \<Rightarrow> (Inl TypeError, s)
      | Inr (Some p) \<Rightarrow>
          if js_startsWith p (currentPlayer s)
          then (Inr True, s\<lparr>selectedPiece := Some (row, col)\<rparr>)
          else (Inr False, s))"

definition switchPlayer :: "state \<Rightarrow> state" where
  "switchPlayer s =
     s\<lparr>currentPlayer := (if currentPlayer s = ''red'' then ''black'' else ''red'')\<rparr>"

definition countPieces :: "state \<Rightarrow> string \<Rightarrow> nat" where
  "countPieces s color = length (filter (\<lambda>piece. js_startsWith piece color) (concat (board s)))"

definition checkGameOver :: "state \<Rightarrow> state" where
  "checkGameOver s =
     (let redPieces = countPieces s ''red'';
          blackPieces = countPieces s ''black''
      in if redPieces = 0 then s\<lparr>gameOver := True\<rparr>
         else if blackPieces = 0 then s\<lparr>gameOver := True\<rparr>
         else s)"

text \<open>
  \<open>isValidMove\<close> assigns nothing, so it only has a result. The reads happen in the
  order of the source: the selection is destructured, the selected cell and the target
  cell are read, and only then is \<open>piece.includes\<close> called. In the jump branch
  \<open>(row + targetRow) / 2\<close> is exact, both differences being \<open>2\<close> or \<open>-2\<close>.
\<close>

definition isValidMove :: "state \<Rightarrow> int \<Rightarrow> int \<Rightarrow> error + bool" where
  "isValidMove s targetRow targetCol =
     (case selectedPiece s of
        None \<Rightarrow> Inl TypeError
      | Some (row, col) \<Rightarrow>
         (case cell (board s) row col of
            Inl e \<Rightarrow> Inl e
          | Inr piece \<Rightarrow>
             (let dx = targetCol - col; dy = targetRow - row in
              case cell (board s) targetRow targetCol of
                Inl e \<Rightarrow> Inl e
              | Inr target \<Rightarrow>
                  if target \<noteq> Some '''' then Inr False
                  else
                   (case piece of
                      None \<Rightarrow> Inl TypeError
                    | Some p \<Rightarrow>
                       (let isKing = js_includes p ''king'';
                            forwardMove =
                              ((currentPlayer s = ''red'' \<and> dy = - 1) \<or>
                               (currentPlayer s = ''black'' \<and> dy = 1))
                        in if \<bar>dx\<bar> = 1 \<and> \<bar>dy\<bar> = 1 then Inr (isKing \<or> forwardMove)
                           else if \<bar>dx\<bar> = 2 \<and> \<bar>dy\<bar> = 2 then
                             (let jumpedRow = (row + targetRow) div 2;
                                  jumpedCol = (col + targetCol) div 2
                              in case cell (board s) jumpedRow jumpedCol of
                                   Inl e \<Rightarrow> Inl e
                                 | Inr None \<Rightarrow> Inl TypeError
                                 | Inr (Some j) \<Rightarrow>
                                     Inr (j \<noteq> '''' \<and> \<not> js_startsWith j (currentPlayer s)))
                           else Inr False)))))"

text \<open>
  \<open>movePiece\<close>. An exception can only come out of \<open>isValidMove\<close>, before anything is
  assigned, so it leaves the fields as they were. After a positive validation the
  selection is present and the selected cell holds a string; the two branches that
  say otherwise are never taken.
\<close>

definition movePiece :: "state \<Rightarrow> int \<Rightarrow> int \<Rightarrow> outcome" where
  "movePiece s targetRow targetCol =
     (case isValidMove s targetRow targetCol of
        Inl e \<Rightarrow> (Inl e, s)
      | Inr False \<Rightarrow> (Inr False, s\<lparr>selectedPiece := None\<rparr>)
      | Inr True \<Rightarrow>
         (case selectedPiece s of
            None \<Rightarrow> (Inl TypeError, s)
          | Some (row, col) \<Rightarrow>
             (case cell (board s) row col of
                Inr (Some piece) \<Rightarrow>
                  (let b1 = set_cell (board s) targetRow targetCol piece;
                       b2 = set_cell b1 row col '''';
                       b3 = (if \<bar>targetRow - row\<bar> = 2
                             then set_cell b2 ((row + targetRow) div 2) ((col + targetCol) div 2) ''''
                             else b2);
                       b4 = (if (currentPlayer s = ''red'' \<and> targetRow = 0) \<or>
                                (currentPlayer s = ''black'' \<and> targetRow = 7)
                             then set_cell b3 targetRow targetCol (currentPlayer s @ ''-king'')
                             else b3)
                   in (Inr True,
                       checkGameOver (switchPlayer (s\<lparr>board := b4, selectedPiece := None\<rparr>))))
              | _ \<Rightarrow> (Inl TypeError, s))))"

subsection \<open>Reading the tags\<close>

text \<open>
  The field comments of the source fix what the strings mean: a cell is the empty
  string or one of \<open>''red''\<close>, \<open>''black''\<close>, \<open>''red-king''\<close>, \<open>''black-king''\<close>; the
  current player is \<open>''red''\<close> or \<open>''black''\<close>. The engine itself never decodes a tag,
  it only tests prefixes and substrings; \<open>owner\<close> and \<open>is_king\<close> give the properties
  below their vocabulary.
\<close>

definition is_tag :: "string \<Rightarrow> bool" where
  "is_tag p = (p = '''' \<or> p = ''red'' \<or> p = ''black'' \<or> p = ''red-king'' \<or> p = ''black-king'')"

definition owner :: "string \<Rightarrow> string option" where
  "owner p =
     (if p = ''red'' \<or> p = ''red-king'' then Some ''red''
      else if p = ''black'' \<or> p = ''black-king'' then Some ''black''
      else None)"

definition is_king :: "string \<Rightarrow> bool" where
  "is_king p = (p = ''red-king'' \<or> p = ''black-king'')"

definition in_grid :: "int \<Rightarrow> int \<Rightarrow> bool" where
  "in_grid row col = (0 \<le> row \<and> row < 8 \<and> 0 \<le> col \<and> col < 8)"

text \<open>An 8 by 8 grid of tags, and such a grid with one of the two players to move.\<close>

definition tag_grid :: "string list list \<Rightarrow> bool" where
  "tag_grid b =
     (length b = 8 \<and> list_all (\<lambda>r. length r = 8) b \<and> list_all (list_all is_tag) b)"

definition well_formed :: "state \<Rightarrow> bool" where
  "well_formed s =
     (tag_grid (board s) \<and> (currentPlayer s = ''red'' \<or> currentPlayer s = ''black''))"

text \<open>A selection, when there is one, points at a piece of the player to move.\<close>

definition selection_owned :: "state \<Rightarrow> bool" where
  "selection_owned s =
     (case selectedPiece s of
        None \<Rightarrow> True
      | Some (row, col) \<Rightarrow>
         (case cell (board s) row col of
            Inr (Some p) \<Rightarrow> owner p = Some (currentPlayer s)
          | _ \<Rightarrow> False))"

text \<open>
  The states a client can bring the service into through its three public methods,
  with any arguments, whether the call returns or throws.
\<close>

inductive reachable :: "state \<Rightarrow> bool" where
  construct: "reachable new_GameService"
| initialize: "reachable s \<Longrightarrow> reachable (initializeBoard s)"
| select: "reachable s \<Longrightarrow> reachable (snd (selectPiece s row col))"
| move: "reachable s \<Longrightarrow> reachable (snd (movePiece s targetRow targetCol))"

subsection \<open>Positions used in the examples\<close>

text \<open>
  A fresh game in which red has selected the man at (5, 0), and the same game after
  that man has moved to (4, 1), with black to move.
\<close>

definition red_selected :: state where
  "red_selected = snd (selectPiece new_GameService 5 0)"

definition black_to_move :: state where
  "black_to_move = snd (movePiece red_selected 4 1)"

text \<open>
  An endgame: the selected red man at (4, 1) can jump the last black man at (3, 2) and
  land on (2, 3).
\<close>

definition last_capture :: state where
  "last_capture =
     \<lparr>board =
        [['''', '''', '''', '''', '''', '''', '''', ''''],
         ['''', '''', '''', '''', '''', '''', '''', ''''],
         ['''', '''', '''', '''', '''', '''', '''', ''''],
         ['''', '''', ''black'', '''', '''', '''', '''', ''''],
         ['''', ''red'', '''', '''', '''', '''', '''', ''''],
         ['''', '''', '''', '''', '''', '''', '''', ''''],
         ['''', '''', '''', '''', '''', '''', '''', ''''],
         ['''', '''', '''', '''', '''', '''', '''', '''']],
      currentPlayer = ''red'', selectedPiece = Some (4, 1), gameOver = False\<rparr>"

text \<open>The selected red man at (1, 2) is one step away from row 0.\<close>

definition before_promotion :: state where
  "before_promotion =
     \<lparr>board =
        [['''', '''', '''', '''', '''', '''', '''', ''''],
         ['''', '''', ''red'', '''', '''', '''', '''', ''''],
         ['''', '''', '''', '''', '''', '''', '''', ''''],
         ['''', '''', '''', '''', '''', '''', '''', ''''],
         ['''', '''', '''', '''', '''', '''', '''', ''''],
         ['''', '''', '''', '''', '''', '''', ''black'', ''''],
         ['''', '''', '''', '''', '''', '''', '''', ''''],
         ['''', '''', '''', '''', '''', '''', '''', '''']],
      currentPlayer = ''red'', selectedPiece = Some (1, 2), gameOver = False\<rparr>"

section \<open>Properties\<close>

subsection \<open>Tags, reads and writes\<close>

lemma startsWith_owner:
  "is_tag p \<Longrightarrow> cp = ''red'' \<or> cp = ''black'' \<Longrightarrow> js_startsWith p cp = (owner p = Some cp)"
  unfolding is_tag_def js_startsWith_def owner_def by (elim disjE) simp_all

lemma includes_king: "is_tag p \<Longrightarrow> js_includes p ''king'' = is_king p"
  unfolding is_tag_def js_includes_def is_king_def by (elim disjE) (simp_all add: sublist_code)

lemma index_Some:
  "index xs i = Some x \<longleftrightarrow> 0 \<le> i \<and> i < int (length xs) \<and> xs ! nat i = x"
  by (auto simp: index_def)

lemma index_update:
  assumes "0 \<le> i"
  shows "index (xs[nat i := v]) j = (if j = i \<and> i < int (length xs) then Some v else index xs j)"
proof (cases "j = i")
  case True
  with assms show ?thesis by (simp add: index_def)
next
  case False
  show ?thesis
  proof (cases "0 \<le> j")
    case True
    with False assms have "nat i \<noteq> nat j" by simp
    with False show ?thesis by (simp add: index_def)
  next
    case False
    with assms show ?thesis by (auto simp: index_def)
  qed
qed

lemma cell_Some:
  "cell b row col = Inr (Some x) \<longleftrightarrow>
     0 \<le> row \<and> row < int (length b) \<and> 0 \<le> col \<and> col < int (length (b ! nat row)) \<and>
     b ! nat row ! nat col = x"
  by (auto simp: cell_def index_def split: option.splits if_splits)

lemma grid_row_length:
  "length b = 8 \<Longrightarrow> list_all (\<lambda>r. length r = 8) b \<Longrightarrow> 0 \<le> row \<Longrightarrow> row < 8 \<Longrightarrow>
   length (b ! nat row) = 8"
proof -
  assume "length b = 8" "list_all (\<lambda>r. length r = 8) b" "0 \<le> row" "row < 8"
  then have "nat row < length b" by simp
  with \<open>list_all (\<lambda>r. length r = 8) b\<close> show ?thesis
    by (simp add: list_all_length)
qed

lemma cell_in_grid:
  "length b = 8 \<Longrightarrow> list_all (\<lambda>r. length r = 8) b \<Longrightarrow> in_grid row col \<Longrightarrow>
   cell b row col = Inr (Some (b ! nat row ! nat col))"
  by (simp add: cell_Some in_grid_def grid_row_length)

lemma cell_Some_in_grid:
  "length b = 8 \<Longrightarrow> list_all (\<lambda>r. length r = 8) b \<Longrightarrow> cell b row col = Inr (Some p) \<Longrightarrow>
   in_grid row col"
  by (auto simp: cell_Some in_grid_def grid_row_length)

lemma cell_set_cell:
  assumes "cell b row col = Inr (Some x)"
  shows "cell (set_cell b row col v) r c =
     (if r = row \<and> c = col then Inr (Some v) else cell b r c)"
proof -
  from assms have row: "0 \<le> row" "row < int (length b)"
    and col: "0 \<le> col" "col < int (length (b ! nat row))"
    by (simp_all add: cell_Some)
  show ?thesis
  proof (cases "r = row")
    case True
    with row col show ?thesis
      by (simp add: cell_def set_cell_def index_update) (simp add: index_def)
  next
    case False
    with row show ?thesis
      by (simp add: cell_def set_cell_def index_update)
  qed
qed

lemma cell_tag:
  "list_all (list_all is_tag) b \<Longrightarrow> cell b row col = Inr (Some p) \<Longrightarrow> is_tag p"
proof -
  assume tags: "list_all (list_all is_tag) b" and c: "cell b row col = Inr (Some p)"
  from c have "nat row < length b" "nat col < length (b ! nat row)" "b ! nat row ! nat col = p"
    by (auto simp: cell_Some)
  with tags show ?thesis
    by (auto simp: list_all_length)
qed

lemma length_set_cell: "length (set_cell b row col v) = length b"
  by (simp add: set_cell_def)

lemma rows_set_cell:
  assumes "list_all (\<lambda>r. length r = n) b"
  shows "list_all (\<lambda>r. length r = n) (set_cell b row col v)"
  unfolding set_cell_def list_all_length
proof (intro allI impI)
  fix k assume "k < length (b[nat row := (b ! nat row)[nat col := v]])"
  then have k: "k < length b" by simp
  with assms have "length (b ! k) = n" by (simp add: list_all_length)
  with k show "length (b[nat row := (b ! nat row)[nat col := v]] ! k) = n"
    by (cases "k = nat row") simp_all
qed

lemma tags_set_cell:
  assumes "list_all (list_all is_tag) b" and "is_tag v"
  shows "list_all (list_all is_tag) (set_cell b row col v)"
  unfolding set_cell_def list_all_length
proof (intro allI impI)
  fix k m
  assume "k < length (b[nat row := (b ! nat row)[nat col := v]])"
    and m: "m < length (b[nat row := (b ! nat row)[nat col := v]] ! k)"
  then have k: "k < length b" by simp
  from k m have m': "m < length (b ! k)" by (cases "k = nat row") simp_all
  with k assms have "is_tag (b ! k ! m)" by (simp add: list_all_length)
  with k m' assms(2) show "is_tag (b[nat row := (b ! nat row)[nat col := v]] ! k ! m)"
    by (cases "k = nat row"; cases "m = nat col") simp_all
qed

subsection \<open>Initialisation and validation\<close>

lemma initial_board:
  "board (initializeBoard s) =
    [['''', ''black'', '''', ''black'', '''', ''black'', '''', ''black''],
     [''black'', '''', ''black'', '''', ''black'', '''', ''black'', ''''],
     ['''', ''black'', '''', ''black'', '''', ''black'', '''', ''black''],
     ['''', '''', '''', '''', '''', '''', '''', ''''],
     ['''', '''', '''', '''', '''', '''', '''', ''''],
     [''red'', '''', ''red'', '''', ''red'', '''', ''red'', ''''],
     ['''', ''red'', '''', ''red'', '''', ''red'', '''', ''red''],
     [''red'', '''', ''red'', '''', ''red'', '''', ''red'', '''']]"
  by (simp add: initializeBoard_def upt_rec)

lemma well_formed_initializeBoard: "well_formed (initializeBoard s)"
  unfolding well_formed_def tag_grid_def initial_board
  by (simp add: is_tag_def initializeBoard_def)

lemma selection_owned_initializeBoard: "selection_owned (initializeBoard s)"
  by (simp add: selection_owned_def initializeBoard_def)

lemma isValidMove_cells:
  assumes "selectedPiece s = Some (row, col)"
    and "cell (board s) row col = Inr (Some p)"
    and "cell (board s) targetRow targetCol = Inr (Some t)"
  shows "isValidMove s targetRow targetCol =
     (if t \<noteq> '''' then Inr False
      else if \<bar>targetCol - col\<bar> = 1 \<and> \<bar>targetRow - row\<bar> = 1
        then Inr (js_includes p ''king'' \<or>
                  (currentPlayer s = ''red'' \<and> targetRow - row = - 1) \<or>
                  (currentPlayer s = ''black'' \<and> targetRow - row = 1))
      else if \<bar>targetCol - col\<bar> = 2 \<and> \<bar>targetRow - row\<bar> = 2
        then (case cell (board s) ((row + targetRow) div 2) ((col + targetCol) div 2) of
                Inl e \<Rightarrow> Inl e
              | Inr None \<Rightarrow> Inl TypeError
              | Inr (Some j) \<Rightarrow> Inr (j \<noteq> '''' \<and> \<not> js_startsWith j (currentPlayer s)))
      else Inr False)"
  using assms by (simp add: isValidMove_def Let_def)

lemma isValidMove_True_cells:
  assumes "isValidMove s targetRow targetCol = Inr True"
  shows "\<exists>row col p.
           selectedPiece s = Some (row, col) \<and> cell (board s) row col = Inr (Some p) \<and>
           cell (board s) targetRow targetCol = Inr (Some '''') \<and>
           (\<bar>targetRow - row\<bar> = 2 \<longrightarrow>
              (\<exists>j. cell (board s) ((row + targetRow) div 2) ((col + targetCol) div 2) = Inr (Some j)))"
  using assms unfolding isValidMove_def Let_def
  by (auto split: option.splits sum.splits if_splits prod.splits)

subsection \<open>The state after a validated move\<close>

lemma checkGameOver_fields:
  "board (checkGameOver s) = board s"
  "currentPlayer (checkGameOver s) = currentPlayer s"
  "selectedPiece (checkGameOver s) = selectedPiece s"
  "gameOver (checkGameOver s) = (gameOver s \<or> countPieces s ''red'' = 0 \<or> countPieces s ''black'' = 0)"
  by (simp_all add: checkGameOver_def Let_def)

lemma countPieces_board: "board s = board t \<Longrightarrow> countPieces s color = countPieces t color"
  by (simp add: countPieces_def)

lemma movePiece_valid:
  assumes sel: "selectedPiece s = Some (row, col)"
    and p: "cell (board s) row col = Inr (Some p)"
    and valid: "isValidMove s targetRow targetCol = Inr True"
  shows "fst (movePiece s targetRow targetCol) = Inr True"
    and "currentPlayer (snd (movePiece s targetRow targetCol)) =
           (if currentPlayer s = ''red'' then ''black'' else ''red'')"
    and "selectedPiece (snd (movePiece s targetRow targetCol)) = None"
    and "gameOver (snd (movePiece s targetRow targetCol)) =
           (gameOver s \<or> countPieces (snd (movePiece s targetRow targetCol)) ''red'' = 0
                       \<or> countPieces (snd (movePiece s targetRow targetCol)) ''black'' = 0)"
    and "cell (board (snd (movePiece s targetRow targetCol))) r c =
           (if r = targetRow \<and> c = targetCol then
              Inr (Some (if (currentPlayer s = ''red'' \<and> targetRow = 0) \<or>
                            (currentPlayer s = ''black'' \<and> targetRow = 7)
                         then currentPlayer s @ ''-king'' else p))
            else if r = row \<and> c = col then Inr (Some '''')
            else if \<bar>targetRow - row\<bar> = 2 \<and> r = (row + targetRow) div 2 \<and> c = (col + targetCol) div 2
              then Inr (Some '''')
            else cell (board s) r c)"
proof -
  define promote where "promote \<longleftrightarrow>
    (currentPlayer s = ''red'' \<and> targetRow = 0) \<or> (currentPlayer s = ''black'' \<and> targetRow = 7)"
  define b1 where "b1 = set_cell (board s) targetRow targetCol p"
  define b2 where "b2 = set_cell b1 row col ''''"
  define b3 where "b3 = (if \<bar>targetRow - row\<bar> = 2
                         then set_cell b2 ((row + targetRow) div 2) ((col + targetCol) div 2) ''''
                         else b2)"
  define b4 where "b4 = (if promote
                         then set_cell b3 targetRow targetCol (currentPlayer s @ ''-king'')
                         else b3)"
  define t where "t = s\<lparr>board := b4, selectedPiece := None\<rparr>"
  have mp: "movePiece s targetRow targetCol = (Inr True, checkGameOver (switchPlayer t))"
    using sel p valid
    by (simp add: movePiece_def Let_def b1_def b2_def b3_def b4_def t_def promote_def)
  show "fst (movePiece s targetRow targetCol) = Inr True"
    by (simp add: mp)
  show "currentPlayer (snd (movePiece s targetRow targetCol)) =
           (if currentPlayer s = ''red'' then ''black'' else ''red'')"
    by (simp add: mp checkGameOver_fields switchPlayer_def t_def)
  show "selectedPiece (snd (movePiece s targetRow targetCol)) = None"
    by (simp add: mp checkGameOver_fields switchPlayer_def t_def)
  have "countPieces (checkGameOver (switchPlayer t)) color = countPieces (switchPlayer t) color"
    for color
    by (rule countPieces_board) (simp add: checkGameOver_fields)
  then show "gameOver (snd (movePiece s targetRow targetCol)) =
           (gameOver s \<or> countPieces (snd (movePiece s targetRow targetCol)) ''red'' = 0
                       \<or> countPieces (snd (movePiece s targetRow targetCol)) ''black'' = 0)"
    by (simp add: mp checkGameOver_fields) (simp add: switchPlayer_def t_def)
  from valid obtain row' col' p' where
    "selectedPiece s = Some (row', col')" and
    tgt: "cell (board s) targetRow targetCol = Inr (Some '''')" and
    mid': "\<bar>targetRow - row'\<bar> = 2 \<longrightarrow>
      (\<exists>j. cell (board s) ((row' + targetRow) div 2) ((col' + targetCol) div 2) = Inr (Some j))"
    using isValidMove_True_cells by blast
  with sel have mid: "\<bar>targetRow - row\<bar> = 2 \<longrightarrow>
      (\<exists>j. cell (board s) ((row + targetRow) div 2) ((col + targetCol) div 2) = Inr (Some j))"
    by simp
  have c1: "cell b1 r c = (if r = targetRow \<and> c = targetCol then Inr (Some p) else cell (board s) r c)"
    for r c unfolding b1_def by (rule cell_set_cell [OF tgt])
  have "\<exists>x. cell b1 row col = Inr (Some x)"
    using p by (simp add: c1)
  then obtain x1 where "cell b1 row col = Inr (Some x1)" ..
  then have c2: "cell b2 r c = (if r = row \<and> c = col then Inr (Some '''') else cell b1 r c)"
    for r c unfolding b2_def by (rule cell_set_cell)
  have c3: "cell b3 r c =
      (if \<bar>targetRow - row\<bar> = 2 \<and> r = (row + targetRow) div 2 \<and> c = (col + targetCol) div 2
       then Inr (Some '''') else cell b2 r c)" for r c
  proof (cases "\<bar>targetRow - row\<bar> = 2")
    case True
    with mid obtain j where
      "cell (board s) ((row + targetRow) div 2) ((col + targetCol) div 2) = Inr (Some j)"
      by blast
    then have "\<exists>x. cell b2 ((row + targetRow) div 2) ((col + targetCol) div 2) = Inr (Some x)"
      by (simp add: c2 c1)
    then obtain x2 where
      "cell b2 ((row + targetRow) div 2) ((col + targetCol) div 2) = Inr (Some x2)" ..
    then have "cell (set_cell b2 ((row + targetRow) div 2) ((col + targetCol) div 2) '''') r c =
        (if r = (row + targetRow) div 2 \<and> c = (col + targetCol) div 2 then Inr (Some '''')
         else cell b2 r c)"
      by (rule cell_set_cell)
    with True show ?thesis by (simp add: b3_def)
  next
    case False
    then show ?thesis by (simp add: b3_def)
  qed
  have "\<exists>x. cell b3 targetRow targetCol = Inr (Some x)"
    using tgt by (simp add: c3 c2 c1)
  then obtain x3 where "cell b3 targetRow targetCol = Inr (Some x3)" ..
  then have set4: "cell (set_cell b3 targetRow targetCol v) r c =
        (if r = targetRow \<and> c = targetCol then Inr (Some v) else cell b3 r c)" for v r c
    by (rule cell_set_cell)
  have c4: "cell b4 r c =
      (if promote \<and> r = targetRow \<and> c = targetCol
       then Inr (Some (currentPlayer s @ ''-king'')) else cell b3 r c)" for r c
    by (simp add: b4_def set4)
  have jump_row: "\<bar>targetRow - row\<bar> = 2 \<Longrightarrow> (row + targetRow) div 2 \<noteq> targetRow"
    by arith
  have final: "cell b4 r c =
           (if r = targetRow \<and> c = targetCol then
              Inr (Some (if promote then currentPlayer s @ ''-king'' else p))
            else if r = row \<and> c = col then Inr (Some '''')
            else if \<bar>targetRow - row\<bar> = 2 \<and> r = (row + targetRow) div 2 \<and> c = (col + targetCol) div 2
              then Inr (Some '''')
            else cell (board s) r c)"
  proof (cases "r = targetRow \<and> c = targetCol")
    case True
    have "targetRow = row \<and> targetCol = col \<Longrightarrow> p = []"
      using p tgt by simp
    with jump_row have "cell b3 targetRow targetCol = Inr (Some p)"
      by (auto simp: c3 c2 c1)
    with True show ?thesis
      by (simp add: c4)
  next
    case False
    then have "cell b4 r c = cell b3 r c"
      by (auto simp: c4)
    also have "cell b3 r c =
        (if r = row \<and> c = col then Inr (Some [])
         else if \<bar>targetRow - row\<bar> = 2 \<and> r = (row + targetRow) div 2 \<and> c = (col + targetCol) div 2
           then Inr (Some [])
         else cell b1 r c)"
      by (simp add: c3 c2)
    also have "cell b1 r c = cell (board s) r c"
      using False by (auto simp: c1)
    finally show ?thesis
      using False by auto
  qed
  have "board (snd (movePiece s targetRow targetCol)) = b4"
    by (simp add: mp checkGameOver_fields switchPlayer_def t_def)
  with final show "cell (board (snd (movePiece s targetRow targetCol))) r c =
           (if r = targetRow \<and> c = targetCol then
              Inr (Some (if (currentPlayer s = ''red'' \<and> targetRow = 0) \<or>
                            (currentPlayer s = ''black'' \<and> targetRow = 7)
                         then currentPlayer s @ ''-king'' else p))
            else if r = row \<and> c = col then Inr (Some '''')
            else if \<bar>targetRow - row\<bar> = 2 \<and> r = (row + targetRow) div 2 \<and> c = (col + targetCol) div 2
              then Inr (Some '''')
            else cell (board s) r c)"
    unfolding promote_def by simp
qed

subsection \<open>What every reachable state satisfies\<close>

lemma tag_grid_set_cell: "tag_grid b \<Longrightarrow> is_tag v \<Longrightarrow> tag_grid (set_cell b row col v)"
  by (simp add: tag_grid_def length_set_cell rows_set_cell tags_set_cell)

lemma tag_grid_cell: "tag_grid b \<Longrightarrow> in_grid row col \<Longrightarrow> \<exists>p. cell b row col = Inr (Some p) \<and> is_tag p"
  using cell_in_grid [of b row col] cell_tag [of b row col]
  by (simp add: tag_grid_def)

lemma tag_grid_in_grid: "tag_grid b \<Longrightarrow> cell b row col = Inr (Some p) \<Longrightarrow> in_grid row col \<and> is_tag p"
  using cell_Some_in_grid [of b row col p] cell_tag [of b row col p]
  by (simp add: tag_grid_def)

lemma well_formed_selectPiece: "well_formed s \<Longrightarrow> well_formed (snd (selectPiece s row col))"
  by (simp add: selectPiece_def well_formed_def split: sum.splits option.splits)

lemma selection_owned_selectPiece:
  assumes "well_formed s" and "selection_owned s"
  shows "selection_owned (snd (selectPiece s row col))"
proof (cases "\<exists>p. cell (board s) row col = Inr (Some p) \<and> js_startsWith p (currentPlayer s)")
  case True
  then obtain p where p: "cell (board s) row col = Inr (Some p)"
    and sw: "js_startsWith p (currentPlayer s)" by blast
  from assms(1) p have "is_tag p"
    by (auto simp: well_formed_def dest: tag_grid_in_grid)
  with sw assms(1) have "owner p = Some (currentPlayer s)"
    by (simp add: well_formed_def startsWith_owner)
  with p sw show ?thesis
    by (simp add: selectPiece_def selection_owned_def)
next
  case False
  then have "snd (selectPiece s row col) = s"
    by (auto simp: selectPiece_def split: sum.splits option.splits)
  with assms(2) show ?thesis by simp
qed

lemma well_formed_movePiece:
  assumes "well_formed s"
  shows "well_formed (snd (movePiece s targetRow targetCol))"
proof -
  have step: "well_formed (checkGameOver (switchPlayer (s\<lparr>board := b, selectedPiece := None\<rparr>)))"
    if "tag_grid b" for b
    using that by (simp add: well_formed_def checkGameOver_fields switchPlayer_def)
  have king: "is_tag (currentPlayer s @ ''-king'')"
    using assms by (auto simp: well_formed_def is_tag_def)
  have empty: "is_tag []"
    by (simp add: is_tag_def)
  show ?thesis
  proof (cases "isValidMove s targetRow targetCol")
    case (Inl e)
    with assms show ?thesis by (simp add: movePiece_def)
  next
    case (Inr ok)
    show ?thesis
    proof (cases ok)
      case False
      with Inr assms show ?thesis by (simp add: movePiece_def well_formed_def)
    next
      case True
      with Inr have valid: "isValidMove s targetRow targetCol = Inr True"
        by simp
      from isValidMove_True_cells [OF valid]
      obtain row col p where sel: "selectedPiece s = Some (row, col)"
        and p: "cell (board s) row col = Inr (Some p)"
        by blast
      from assms p have "is_tag p"
        by (auto simp: well_formed_def dest: tag_grid_in_grid)
      with assms king empty have "tag_grid
        (let b1 = set_cell (board s) targetRow targetCol p;
             b2 = set_cell b1 row col [];
             b3 = (if \<bar>targetRow - row\<bar> = 2
                   then set_cell b2 ((row + targetRow) div 2) ((col + targetCol) div 2) []
                   else b2)
         in if (currentPlayer s = ''red'' \<and> targetRow = 0) \<or>
               (currentPlayer s = ''black'' \<and> targetRow = 7)
            then set_cell b3 targetRow targetCol (currentPlayer s @ ''-king'')
            else b3)"
        by (simp add: Let_def well_formed_def tag_grid_set_cell)
      then show ?thesis
        using Inr True sel p step by (simp add: movePiece_def Let_def)
    qed
  qed
qed

lemma selection_owned_movePiece:
  assumes "selection_owned s"
  shows "selection_owned (snd (movePiece s targetRow targetCol))"
proof (cases "isValidMove s targetRow targetCol")
  case (Inl e)
  with assms show ?thesis by (simp add: movePiece_def)
next
  case (Inr ok)
  show ?thesis
  proof (cases ok)
    case False
    with Inr show ?thesis by (simp add: movePiece_def selection_owned_def)
  next
    case True
    with Inr have valid: "isValidMove s targetRow targetCol = Inr True"
      by simp
    from isValidMove_True_cells [OF valid]
    obtain row col p where sel: "selectedPiece s = Some (row, col)"
      and p: "cell (board s) row col = Inr (Some p)"
      by blast
    with valid have "selectedPiece (snd (movePiece s targetRow targetCol)) = None"
      by (simp add: movePiece_valid)
    then show ?thesis by (simp add: selection_owned_def)
  qed
qed

lemma reachable_invariant: "reachable s \<Longrightarrow> well_formed s \<and> selection_owned s"
proof (induction rule: reachable.induct)
  case construct
  show ?case
    by (simp add: new_GameService_def well_formed_initializeBoard selection_owned_initializeBoard)
next
  case (initialize s)
  show ?case
    by (simp add: well_formed_initializeBoard selection_owned_initializeBoard)
next
  case (select s row col)
  then show ?case
    by (simp add: well_formed_selectPiece selection_owned_selectPiece)
next
  case (move s targetRow targetCol)
  then show ?case
    by (simp add: well_formed_movePiece selection_owned_movePiece)
qed

subsection \<open>Validation in terms of owners\<close>

lemma between_in_grid:
  assumes "in_grid row col" "in_grid targetRow targetCol"
  shows "in_grid ((row + targetRow) div 2) ((col + targetCol) div 2)"
  using assms unfolding in_grid_def by auto

lemma opponent_tag:
  "is_tag j \<Longrightarrow> cp = ''red'' \<or> cp = ''black'' \<Longrightarrow>
   (j \<noteq> [] \<and> \<not> js_startsWith j cp) = (owner j \<noteq> None \<and> owner j \<noteq> Some cp)"
  unfolding is_tag_def js_startsWith_def owner_def by (elim disjE) simp_all

lemma selected_piece:
  assumes "well_formed s" and "selection_owned s" and "selectedPiece s = Some (row, col)"
  shows "\<exists>p. cell (board s) row col = Inr (Some p) \<and> owner p = Some (currentPlayer s) \<and>
             is_tag p \<and> in_grid row col"
proof -
  from assms(2,3) obtain p where p: "cell (board s) row col = Inr (Some p)"
    and o: "owner p = Some (currentPlayer s)"
    by (auto simp: selection_owned_def split: sum.splits option.splits)
  from assms(1) p have "in_grid row col \<and> is_tag p"
    by (auto simp: well_formed_def dest: tag_grid_in_grid)
  with p o show ?thesis by blast
qed

lemma isValidMove_owned:
  assumes wf: "well_formed s" and so: "selection_owned s"
    and sel: "selectedPiece s = Some (row, col)"
    and p: "cell (board s) row col = Inr (Some p)"
    and t: "cell (board s) targetRow targetCol = Inr (Some t)"
  shows "\<exists>j. cell (board s) ((row + targetRow) div 2) ((col + targetCol) div 2) = Inr (Some j) \<and>
     isValidMove s targetRow targetCol =
       Inr (t = [] \<and>
            ((\<bar>targetCol - col\<bar> = 1 \<and> \<bar>targetRow - row\<bar> = 1 \<and>
                (is_king p \<or> (owner p = Some ''red'' \<and> targetRow - row = - 1)
                           \<or> (owner p = Some ''black'' \<and> targetRow - row = 1))) \<or>
             (\<bar>targetCol - col\<bar> = 2 \<and> \<bar>targetRow - row\<bar> = 2 \<and>
                owner j \<noteq> None \<and> owner j \<noteq> owner p)))"
proof -
  from wf have grid: "tag_grid (board s)"
    and cp: "currentPlayer s = ''red'' \<or> currentPlayer s = ''black''"
    by (simp_all add: well_formed_def)
  from selected_piece [OF wf so sel] p have o: "owner p = Some (currentPlayer s)"
    and tp: "is_tag p" and gp: "in_grid row col"
    by simp_all
  from grid t have gt: "in_grid targetRow targetCol"
    by (auto dest: tag_grid_in_grid)
  from gp gt have "in_grid ((row + targetRow) div 2) ((col + targetCol) div 2)"
    by (rule between_in_grid)
  with grid obtain j where
    j: "cell (board s) ((row + targetRow) div 2) ((col + targetCol) div 2) = Inr (Some j)"
    and tj: "is_tag j"
    using tag_grid_cell by blast
  have king: "js_includes p ''king'' = is_king p"
    using tp by (rule includes_king)
  have opp: "(j \<noteq> [] \<and> \<not> js_startsWith j (currentPlayer s)) = (owner j \<noteq> None \<and> owner j \<noteq> owner p)"
    using tj cp by (simp add: opponent_tag o)
  have "isValidMove s targetRow targetCol =
       Inr (t = [] \<and>
            ((\<bar>targetCol - col\<bar> = 1 \<and> \<bar>targetRow - row\<bar> = 1 \<and>
                (is_king p \<or> (owner p = Some ''red'' \<and> targetRow - row = - 1)
                           \<or> (owner p = Some ''black'' \<and> targetRow - row = 1))) \<or>
             (\<bar>targetCol - col\<bar> = 2 \<and> \<bar>targetRow - row\<bar> = 2 \<and>
                owner j \<noteq> None \<and> owner j \<noteq> owner p)))"
    unfolding isValidMove_cells [OF sel p t] king
    using opp by (auto simp: j o)
  with j show ?thesis by blast
qed

lemma movePiece_invalid:
  "isValidMove s targetRow targetCol = Inr False \<Longrightarrow>
   movePiece s targetRow targetCol = (Inr False, s\<lparr>selectedPiece := None\<rparr>)"
  by (simp add: movePiece_def)

subsection \<open>The freshly constructed service\<close>

lemma initializeBoard_const: "initializeBoard s = new_GameService"
  by (simp add: initializeBoard_def new_GameService_def)

lemma new_GameService_fields:
  "board new_GameService =
    [['''', ''black'', '''', ''black'', '''', ''black'', '''', ''black''],
     [''black'', '''', ''black'', '''', ''black'', '''', ''black'', ''''],
     ['''', ''black'', '''', ''black'', '''', ''black'', '''', ''black''],
     ['''', '''', '''', '''', '''', '''', '''', ''''],
     ['''', '''', '''', '''', '''', '''', '''', ''''],
     [''red'', '''', ''red'', '''', ''red'', '''', ''red'', ''''],
     ['''', ''red'', '''', ''red'', '''', ''red'', '''', ''red''],
     [''red'', '''', ''red'', '''', ''red'', '''', ''red'', '''']]"
  "currentPlayer new_GameService = ''red''"
  "selectedPiece new_GameService = None"
  "gameOver new_GameService = False"
  unfolding new_GameService_def
  by (simp_all add: initial_board) (simp_all add: initializeBoard_def)

lemma cell_new_GameService:
  "cell (board new_GameService) 2 1 = Inr (Some ''black'')"
  "cell (board new_GameService) 5 0 = Inr (Some ''red'')"
  "cell (board new_GameService) 4 1 = Inr (Some [])"
  "cell (board new_GameService) 4 0 = Inr (Some [])"
  by (simp_all add: new_GameService_fields cell_def index_def)

subsection \<open>What a call of \<open>movePiece\<close> or \<open>selectPiece\<close> returns and keeps\<close>

lemma fst_movePiece: "fst (movePiece s targetRow targetCol) = isValidMove s targetRow targetCol"
proof (cases "isValidMove s targetRow targetCol")
  case (Inl e)
  then show ?thesis by (simp add: movePiece_def)
next
  case (Inr ok)
  show ?thesis
  proof (cases ok)
    case False
    with Inr show ?thesis by (simp add: movePiece_def)
  next
    case True
    with Inr have valid: "isValidMove s targetRow targetCol = Inr True"
      by simp
    from isValidMove_True_cells [OF valid]
    obtain row col p where "selectedPiece s = Some (row, col)"
      and "cell (board s) row col = Inr (Some p)"
      by blast
    with valid show ?thesis by (simp add: movePiece_valid)
  qed
qed

lemma movePiece_not_valid:
  assumes "isValidMove s targetRow targetCol \<noteq> Inr True"
  shows "gameOver (snd (movePiece s targetRow targetCol)) = gameOver s"
    and "board (snd (movePiece s targetRow targetCol)) = board s"
    and "currentPlayer (snd (movePiece s targetRow targetCol)) = currentPlayer s"
proof -
  have "snd (movePiece s targetRow targetCol) = s \<or>
        snd (movePiece s targetRow targetCol) = s\<lparr>selectedPiece := None\<rparr>"
  proof (cases "isValidMove s targetRow targetCol")
    case (Inl e)
    then show ?thesis by (simp add: movePiece_def)
  next
    case (Inr ok)
    with assms have "\<not> ok" by simp
    with Inr show ?thesis by (simp add: movePiece_def)
  qed
  then show "gameOver (snd (movePiece s targetRow targetCol)) = gameOver s"
    and "board (snd (movePiece s targetRow targetCol)) = board s"
    and "currentPlayer (snd (movePiece s targetRow targetCol)) = currentPlayer s"
    by auto
qed

lemma selectPiece_fields:
  "board (snd (selectPiece s row col)) = board s"
  "currentPlayer (snd (selectPiece s row col)) = currentPlayer s"
  "gameOver (snd (selectPiece s row col)) = gameOver s"
  by (simp_all add: selectPiece_def split: sum.splits option.splits)

text \<open>
  \<open>movePiece\<close> tests only the row distance before it removes the jumped piece; after a
  positive validation the column distance is 2 as well, so both midpoints are exact.
\<close>

lemma validated_jump_is_diagonal:
  assumes "isValidMove s targetRow targetCol = Inr True"
    and "selectedPiece s = Some (row, col)" and "\<bar>targetRow - row\<bar> = 2"
  shows "\<bar>targetCol - col\<bar> = 2"
  using assms unfolding isValidMove_def Let_def
  by (auto split: option.splits sum.splits if_splits)

subsection \<open>Targets outside the grid\<close>

lemma isValidMove_target_not_empty:
  assumes "selectedPiece s = Some (row, col)"
    and "cell (board s) row col = Inr piece"
    and "cell (board s) targetRow targetCol = Inr t" and "t \<noteq> Some []"
  shows "isValidMove s targetRow targetCol = Inr False"
  using assms by (simp add: isValidMove_def Let_def)

lemma isValidMove_target_row_outside:
  assumes "selectedPiece s = Some (row, col)"
    and "cell (board s) row col = Inr piece"
    and "cell (board s) targetRow targetCol = Inl e"
  shows "isValidMove s targetRow targetCol = Inl e"
  using assms by (simp add: isValidMove_def Let_def)

lemma cell_row_range:
  "cell b row col = (if 0 \<le> row \<and> row < int (length b) then Inr (index (b ! nat row) col) else Inl TypeError)"
  by (simp add: cell_def index_def)

subsection \<open>What \<open>countPieces\<close> counts\<close>

text \<open>
  The number \<open>countPieces\<close> returns is the number of cells of the board whose tag starts
  with the colour; on a grid of tags these are the cells that hold a piece of that player.
\<close>

lemma index_Cons:
  "index (x # xs) i = (if i = 0 then Some x else index xs (i - 1))"
  by (auto simp: index_def nth_Cons' nat_diff_distrib)

lemma index_Nil: "index [] i = None"
  by (auto simp: index_def)

lemma cell_Nil: "cell [] r c = Inl TypeError"
  by (simp add: cell_def index_Nil)

lemma card_index_filter:
  "card {c. \<exists>p. index xs c = Some p \<and> P p} = length (filter P xs)"
proof (induction xs)
  case Nil
  show ?case by (simp add: index_Nil)
next
  case (Cons x xs)
  let ?T = "{c. \<exists>p. index xs c = Some p \<and> P p}"
  have fin: "finite ?T"
    by (rule finite_subset [of _ "{0..<int (length xs)}"]) (auto simp: index_def split: if_splits)
  have neg: "index xs (- 1) = None"
    by (simp add: index_def)
  have split: "{c. \<exists>p. index (x # xs) c = Some p \<and> P p} =
      (if P x then {0} else {}) \<union> (\<lambda>c. c + 1) ` ?T"
  proof (rule set_eqI)
    fix c
    show "c \<in> {c. \<exists>p. index (x # xs) c = Some p \<and> P p} \<longleftrightarrow>
          c \<in> (if P x then {0} else {}) \<union> (\<lambda>c. c + 1) ` ?T"
    proof -
      have img: "c \<in> (\<lambda>c. c + 1) ` ?T \<longleftrightarrow> c - 1 \<in> ?T"
        by (auto simp: image_iff)
      show ?thesis
      proof (cases "c = 0")
        case True
        with neg have "c \<notin> (\<lambda>c. c + 1) ` ?T"
          unfolding img by simp
        with True show ?thesis by (simp add: index_Cons)
      next
        case False
        then show ?thesis unfolding Un_iff img by (auto simp: index_Cons)
      qed
    qed
  qed
  have "0 \<notin> (\<lambda>c. c + 1) ` ?T"
  proof
    assume "0 \<in> (\<lambda>c. c + 1) ` ?T"
    then obtain c where "c \<in> ?T" and "0 = c + 1" by blast
    then have "- 1 \<in> ?T" by (simp add: add_eq_0_iff)
    with neg show False by simp
  qed
  then have disj: "(if P x then {0::int} else {}) \<inter> (\<lambda>c. c + 1) ` ?T = {}"
    by auto
  have "card ((\<lambda>c. c + 1) ` ?T) = card ?T"
    by (rule card_image) (simp add: inj_on_def)
  with Cons.IH have img: "card ((\<lambda>c. c + 1) ` ?T) = length (filter P xs)"
    by simp
  have "card ((if P x then {0::int} else {}) \<union> (\<lambda>c. c + 1) ` ?T) =
        card (if P x then {0::int} else {}) + card ((\<lambda>c. c + 1) ` ?T)"
    using fin disj by (intro card_Un_disjoint) auto
  with img show ?case
    unfolding split by simp
qed

lemma cell_Cons:
  "cell (xs # b) r c = (if r = 0 then Inr (index xs c) else cell b (r - 1) c)"
  by (simp add: cell_def index_Cons)

lemma card_cells_filter:
  "finite {(r, c). \<exists>p. cell b r c = Inr (Some p) \<and> P p} \<and>
   card {(r, c). \<exists>p. cell b r c = Inr (Some p) \<and> P p} = length (filter P (concat b))"
proof (induction b)
  case Nil
  show ?case by (simp add: cell_Nil)
next
  case (Cons xs b)
  let ?S = "{(r, c). \<exists>p. cell b r c = Inr (Some p) \<and> P p}"
  let ?R = "{c. \<exists>p. index xs c = Some p \<and> P p}"
  have neg: "cell b (- 1) c = Inl TypeError" for c
    by (simp add: cell_def index_def)
  have split: "{(r, c). \<exists>p. cell (xs # b) r c = Inr (Some p) \<and> P p} =
      Pair 0 ` ?R \<union> (\<lambda>(r, c). (r + 1, c)) ` ?S"
  proof (rule set_eqI)
    fix rc :: "int \<times> int"
    obtain r c where rc: "rc = (r, c)" by (cases rc)
    show "rc \<in> {(r, c). \<exists>p. cell (xs # b) r c = Inr (Some p) \<and> P p} \<longleftrightarrow>
          rc \<in> Pair 0 ` ?R \<union> (\<lambda>(r, c). (r + 1, c)) ` ?S"
    proof -
      have img: "(r, c) \<in> (\<lambda>(r, c). (r + 1, c)) ` ?S \<longleftrightarrow> (r - 1, c) \<in> ?S"
        by (auto simp: image_iff)
      show ?thesis
      proof (cases "r = 0")
        case True
        with neg have "(r, c) \<notin> (\<lambda>(r, c). (r + 1, c)) ` ?S"
          unfolding img by simp
        with True show ?thesis by (auto simp: rc cell_Cons)
      next
        case False
        then show ?thesis unfolding rc Un_iff img by (auto simp: cell_Cons)
      qed
    qed
  qed
  have "(0, c) \<notin> (\<lambda>(r, c). (r + 1, c)) ` ?S" for c
  proof
    assume "(0, c) \<in> (\<lambda>(r, c). (r + 1, c)) ` ?S"
    then obtain r where "(r, c) \<in> ?S" and "0 = r + 1" by fastforce
    then have "(- 1, c) \<in> ?S" by (simp add: add_eq_0_iff)
    with neg show False by simp
  qed
  then have "x \<notin> (\<lambda>(r, c). (r + 1, c)) ` ?S" if "x \<in> Pair 0 ` ?R" for x
    using that by (elim imageE) simp
  then have disj: "Pair 0 ` ?R \<inter> (\<lambda>(r, c). (r + 1, c)) ` ?S = {}"
    by blast
  have finR: "finite ?R"
    by (rule finite_subset [of _ "{0..<int (length xs)}"]) (auto simp: index_def split: if_splits)
  have "card (Pair 0 ` ?R) = card ?R"
    by (rule card_image) (simp add: inj_on_def)
  then have c1: "card (Pair (0::int) ` ?R) = length (filter P xs)"
    by (simp add: card_index_filter)
  have "card ((\<lambda>(r, c). (r + 1, c)) ` ?S) = card ?S"
    by (rule card_image) (auto simp: inj_on_def)
  with Cons.IH have c2: "card ((\<lambda>(r, c). (r + 1, c)) ` ?S) = length (filter P (concat b))"
    by simp
  from Cons.IH have finS: "finite ?S"
    by simp
  have "card (Pair 0 ` ?R \<union> (\<lambda>(r, c). (r + 1, c)) ` ?S) =
        card (Pair (0::int) ` ?R) + card ((\<lambda>(r, c). (r + 1, c)) ` ?S)"
    using finR finS disj by (intro card_Un_disjoint) auto
  with c1 c2 finR finS show ?case
    unfolding split by simp
qed

lemma countPieces_card:
  "countPieces s color =
     card {(r, c). \<exists>p. cell (board s) r c = Inr (Some p) \<and> js_startsWith p color}"
  by (simp add: countPieces_def card_cells_filter)

lemma countPieces_owner:
  assumes "tag_grid (board s)" and "color = ''red'' \<or> color = ''black''"
  shows "countPieces s color =
     card {(r, c). \<exists>p. cell (board s) r c = Inr (Some p) \<and> owner p = Some color}"
proof -
  have "(cell (board s) r c = Inr (Some p) \<and> js_startsWith p color) =
        (cell (board s) r c = Inr (Some p) \<and> owner p = Some color)" for r c p
    using assms tag_grid_in_grid [of "board s" r c p] startsWith_owner [of p color]
    by blast
  then show ?thesis
    by (simp add: countPieces_card)
qed

section \<open>The claims\<close>

text \<open>
  Every reachable state is well formed and has an owned selection
  (\<open>reachable_invariant\<close>); the statements about moves below assume exactly these two
  facts of the state before the call.
\<close>

text \<open>
  C1. After \<open>initializeBoard\<close>, from whatever state it is called in (the constructor's
  call or a reset in the middle of a game), the board is the starting position: black
  men on the dark squares of rows 0 to 2, red men on the dark squares of rows 5 to 7,
  every other cell empty; that makes 12 pieces for each player and no king. Red is to
  move, \<open>gameOver\<close> is false and there is no selection. The result does not depend on
  the state before the call.
\<close>

theorem initializeBoard_start_position:
  "board (initializeBoard s) =
    [['''', ''black'', '''', ''black'', '''', ''black'', '''', ''black''],
     [''black'', '''', ''black'', '''', ''black'', '''', ''black'', ''''],
     ['''', ''black'', '''', ''black'', '''', ''black'', '''', ''black''],
     ['''', '''', '''', '''', '''', '''', '''', ''''],
     ['''', '''', '''', '''', '''', '''', '''', ''''],
     [''red'', '''', ''red'', '''', ''red'', '''', ''red'', ''''],
     ['''', ''red'', '''', ''red'', '''', ''red'', '''', ''red''],
     [''red'', '''', ''red'', '''', ''red'', '''', ''red'', '''']] \<and>
   countPieces (initializeBoard s) ''red'' = 12 \<and>
   countPieces (initializeBoard s) ''black'' = 12 \<and>
   filter (\<lambda>p. js_includes p ''king'') (concat (board (initializeBoard s))) = [] \<and>
   currentPlayer (initializeBoard s) = ''red'' \<and>
   gameOver (initializeBoard s) = False \<and>
   selectedPiece (initializeBoard s) = None \<and>
   initializeBoard s = new_GameService"
  unfolding initializeBoard_const
  by (simp add: new_GameService_fields countPieces_def js_startsWith_def js_includes_def sublist_code)

text \<open>
  C2, in the form that holds. The engine checks no bounds. With a selection present and a
  target row on the board (0 to 7), a call of \<open>movePiece\<close> whose target is not an empty
  cell of the board (it is occupied, or its column is off the board), or is not one or
  two diagonal steps away, or is one step backward for a man, or is a jump over an empty
  cell or over a piece of the mover's own side, returns false, clears the selection and
  changes nothing else. With a target row off the board the call throws a \<open>TypeError\<close>
  when it reads the target, and leaves every field, the selection included, as it was.
  Here \<open>p\<close> is the selected piece.
\<close>

theorem movePiece_rejected:
  assumes wf: "well_formed s" and so: "selection_owned s"
    and sel: "selectedPiece s = Some (row, col)"
    and p: "cell (board s) row col = Inr (Some p)"
  shows "(0 \<le> targetRow \<and> targetRow < 8 \<and>
          (cell (board s) targetRow targetCol \<noteq> Inr (Some []) \<or>
           \<not> ((\<bar>targetCol - col\<bar> = 1 \<and> \<bar>targetRow - row\<bar> = 1) \<or>
              (\<bar>targetCol - col\<bar> = 2 \<and> \<bar>targetRow - row\<bar> = 2)) \<or>
           (\<bar>targetCol - col\<bar> = 1 \<and> \<bar>targetRow - row\<bar> = 1 \<and> \<not> is_king p \<and>
              ((owner p = Some ''red'' \<and> targetRow = row + 1) \<or>
               (owner p = Some ''black'' \<and> targetRow = row - 1))) \<or>
           (\<bar>targetCol - col\<bar> = 2 \<and> \<bar>targetRow - row\<bar> = 2 \<and>
              (\<exists>j. cell (board s) ((row + targetRow) div 2) ((col + targetCol) div 2) = Inr (Some j) \<and>
                   (j = [] \<or> owner j = owner p))))
          \<longrightarrow> movePiece s targetRow targetCol = (Inr False, s\<lparr>selectedPiece := None\<rparr>)) \<and>
         (\<not> (0 \<le> targetRow \<and> targetRow < 8)
          \<longrightarrow> movePiece s targetRow targetCol = (Inl TypeError, s))"
proof (intro conjI impI)
  assume "\<not> (0 \<le> targetRow \<and> targetRow < 8)"
  moreover from wf have "length (board s) = 8"
    by (simp add: well_formed_def tag_grid_def)
  ultimately have "cell (board s) targetRow targetCol = Inl TypeError"
    by (auto simp: cell_row_range)
  with sel p have "isValidMove s targetRow targetCol = Inl TypeError"
    by (rule isValidMove_target_row_outside)
  then show "movePiece s targetRow targetCol = (Inl TypeError, s)"
    by (simp add: movePiece_def)
next
  assume a: "0 \<le> targetRow \<and> targetRow < 8 \<and>
          (cell (board s) targetRow targetCol \<noteq> Inr (Some []) \<or>
           \<not> ((\<bar>targetCol - col\<bar> = 1 \<and> \<bar>targetRow - row\<bar> = 1) \<or>
              (\<bar>targetCol - col\<bar> = 2 \<and> \<bar>targetRow - row\<bar> = 2)) \<or>
           (\<bar>targetCol - col\<bar> = 1 \<and> \<bar>targetRow - row\<bar> = 1 \<and> \<not> is_king p \<and>
              ((owner p = Some ''red'' \<and> targetRow = row + 1) \<or>
               (owner p = Some ''black'' \<and> targetRow = row - 1))) \<or>
           (\<bar>targetCol - col\<bar> = 2 \<and> \<bar>targetRow - row\<bar> = 2 \<and>
              (\<exists>j. cell (board s) ((row + targetRow) div 2) ((col + targetCol) div 2) = Inr (Some j) \<and>
                   (j = [] \<or> owner j = owner p))))"
  from wf have len: "length (board s) = 8"
    by (simp add: well_formed_def tag_grid_def)
  with a obtain t where t: "cell (board s) targetRow targetCol = Inr t"
    by (auto simp: cell_row_range)
  have "isValidMove s targetRow targetCol = Inr False"
  proof (cases "t = Some []")
    case False
    with sel p t show ?thesis
      by (rule isValidMove_target_not_empty)
  next
    case True
    with t have t': "cell (board s) targetRow targetCol = Inr (Some [])"
      by simp
    from isValidMove_owned [OF wf so sel p t']
    obtain j' where j': "cell (board s) ((row + targetRow) div 2) ((col + targetCol) div 2) = Inr (Some j')"
      and v: "isValidMove s targetRow targetCol =
       Inr ((\<bar>targetCol - col\<bar> = 1 \<and> \<bar>targetRow - row\<bar> = 1 \<and>
                (is_king p \<or> (owner p = Some ''red'' \<and> targetRow - row = - 1)
                           \<or> (owner p = Some ''black'' \<and> targetRow - row = 1))) \<or>
             (\<bar>targetCol - col\<bar> = 2 \<and> \<bar>targetRow - row\<bar> = 2 \<and>
                owner j' \<noteq> None \<and> owner j' \<noteq> owner p))"
      by auto
    have "owner [] = None"
      by (simp add: owner_def)
    with a t' j' show ?thesis
      unfolding v by auto
  qed
  then show "movePiece s targetRow targetCol = (Inr False, s\<lparr>selectedPiece := None\<rparr>)"
    by (rule movePiece_invalid)
qed

text \<open>
  In the fresh game with red's man at (5, 0) selected: (6, 1) is occupied, (4, 8) is off
  the board in its column, (4, 0) is not diagonal; (8, 1) and (-1, 1) are off the board
  in their row.
\<close>

theorem movePiece_rejected_witness:
  "well_formed red_selected \<and> selection_owned red_selected \<and>
   selectedPiece red_selected = Some (5, 0) \<and>
   cell (board red_selected) 5 0 = Inr (Some ''red'') \<and>
   cell (board red_selected) 6 1 \<noteq> Inr (Some []) \<and>
   movePiece red_selected 6 1 = (Inr False, red_selected\<lparr>selectedPiece := None\<rparr>) \<and>
   cell (board red_selected) 4 8 \<noteq> Inr (Some []) \<and>
   movePiece red_selected 4 8 = (Inr False, red_selected\<lparr>selectedPiece := None\<rparr>) \<and>
   movePiece red_selected 4 0 = (Inr False, red_selected\<lparr>selectedPiece := None\<rparr>) \<and>
   movePiece red_selected 8 1 = (Inl TypeError, red_selected) \<and>
   movePiece red_selected (- 1) 1 = (Inl TypeError, red_selected)"
proof -
  have h: "well_formed red_selected" "selection_owned red_selected"
    "selectedPiece red_selected = Some (5, 0)"
    "cell (board red_selected) 5 0 = Inr (Some ''red'')"
    by code_simp+
  have c: "cell (board red_selected) 6 1 \<noteq> Inr (Some [])"
    "cell (board red_selected) 4 8 \<noteq> Inr (Some [])"
    by code_simp+
  from movePiece_rejected [OF h, of 6 1] movePiece_rejected [OF h, of 4 8]
    movePiece_rejected [OF h, of 4 0] movePiece_rejected [OF h, of 8 1]
    movePiece_rejected [OF h, of "- 1" 1] h c
  show ?thesis
    by simp
qed

text \<open>
  C2 as it was stated fails for a target row off the board: from (5, 0) the step to
  (8, 1) is not diagonal, yet the call does not return false and the selection stays.
\<close>

theorem out_of_board_target_counterexample:
  "selectedPiece red_selected = Some (5, 0) \<and>
   \<not> (\<bar>1 - 0\<bar> = (1::int) \<and> \<bar>8 - 5\<bar> = (1::int) \<or> \<bar>1 - 0\<bar> = (2::int) \<and> \<bar>8 - 5\<bar> = (2::int)) \<and>
   fst (movePiece red_selected 8 1) \<noteq> Inr False \<and>
   selectedPiece (snd (movePiece red_selected 8 1)) \<noteq> None"
  by code_simp

text \<open>
  C3. A one-step diagonal move of the selected piece onto an empty cell succeeds exactly
  when the piece is a king or the step is forward for its owner: one row up (the row
  index decreases) for red, one row down for black. So a man moves forward only, each
  of its backward steps fails, and a king moves either way.
\<close>

theorem one_step_direction:
  assumes wf: "well_formed s" and so: "selection_owned s"
    and sel: "selectedPiece s = Some (row, col)"
    and p: "cell (board s) row col = Inr (Some p)"
    and t: "cell (board s) targetRow targetCol = Inr (Some [])"
    and dx: "\<bar>targetCol - col\<bar> = 1" and dy: "\<bar>targetRow - row\<bar> = 1"
  shows "fst (movePiece s targetRow targetCol) =
           Inr (is_king p \<or> (owner p = Some ''red'' \<and> targetRow = row - 1)
                          \<or> (owner p = Some ''black'' \<and> targetRow = row + 1))"
proof -
  from isValidMove_owned [OF wf so sel p t] dx dy
  have "isValidMove s targetRow targetCol =
           Inr (is_king p \<or> (owner p = Some ''red'' \<and> targetRow - row = - 1)
                          \<or> (owner p = Some ''black'' \<and> targetRow - row = 1))"
    by auto
  moreover have "targetRow - row = - 1 \<longleftrightarrow> targetRow = row - 1"
    and "targetRow - row = 1 \<longleftrightarrow> targetRow = row + 1"
    by auto
  ultimately show ?thesis
    by (simp add: fst_movePiece)
qed

text \<open>Red's man at (5, 0) steps forward to (4, 1).\<close>

theorem one_step_direction_witness:
  "well_formed red_selected \<and> selection_owned red_selected \<and>
   selectedPiece red_selected = Some (5, 0) \<and>
   cell (board red_selected) 5 0 = Inr (Some ''red'') \<and>
   cell (board red_selected) 4 1 = Inr (Some []) \<and>
   \<bar>1 - 0\<bar> = (1::int) \<and> \<bar>4 - 5\<bar> = (1::int) \<and>
   fst (movePiece red_selected 4 1) = Inr True"
proof -
  have h: "well_formed red_selected" "selection_owned red_selected"
    "selectedPiece red_selected = Some (5, 0)"
    "cell (board red_selected) 5 0 = Inr (Some ''red'')"
    "cell (board red_selected) 4 1 = Inr (Some [])"
    by code_simp+
  have a: "\<bar>1 - 0\<bar> = (1::int)" "\<bar>4 - 5\<bar> = (1::int)"
    by simp_all
  from one_step_direction [OF h a] h show ?thesis
    by (simp add: owner_def is_king_def)
qed

text \<open>
  C4. A two-step diagonal move of the selected piece onto an empty cell succeeds exactly
  when the cell halfway holds a piece of the other player; the direction and the rank of
  the mover play no part. When it succeeds the halfway cell and the source cell are
  empty afterwards and the target holds the moved piece (as a king when the jump ends
  on the mover's far row, see C5); when it fails the call returns false and only the
  selection is cleared.
\<close>

theorem jump_captures:
  assumes wf: "well_formed s" and so: "selection_owned s"
    and sel: "selectedPiece s = Some (row, col)"
    and p: "cell (board s) row col = Inr (Some p)"
    and t: "cell (board s) targetRow targetCol = Inr (Some [])"
    and j: "cell (board s) ((row + targetRow) div 2) ((col + targetCol) div 2) = Inr (Some j)"
    and dx: "\<bar>targetCol - col\<bar> = 2" and dy: "\<bar>targetRow - row\<bar> = 2"
  shows "if owner j \<noteq> None \<and> owner j \<noteq> owner p
         then fst (movePiece s targetRow targetCol) = Inr True \<and>
              cell (board (snd (movePiece s targetRow targetCol)))
                ((row + targetRow) div 2) ((col + targetCol) div 2) = Inr (Some []) \<and>
              cell (board (snd (movePiece s targetRow targetCol))) row col = Inr (Some []) \<and>
              cell (board (snd (movePiece s targetRow targetCol))) targetRow targetCol =
                Inr (Some (if (owner p = Some ''red'' \<and> targetRow = 0) \<or>
                              (owner p = Some ''black'' \<and> targetRow = 7)
                           then currentPlayer s @ ''-king'' else p))
         else movePiece s targetRow targetCol = (Inr False, s\<lparr>selectedPiece := None\<rparr>)"
proof -
  from isValidMove_owned [OF wf so sel p t] j dx dy
  have v: "isValidMove s targetRow targetCol = Inr (owner j \<noteq> None \<and> owner j \<noteq> owner p)"
    by auto
  from selected_piece [OF wf so sel] p have o: "owner p = Some (currentPlayer s)"
    by simp
  show ?thesis
  proof (cases "owner j \<noteq> None \<and> owner j \<noteq> owner p")
    case True
    with v have valid: "isValidMove s targetRow targetCol = Inr True"
      by simp
    note after = movePiece_valid(5) [OF sel p valid]
    from dy have rows: "(row + targetRow) div 2 \<noteq> targetRow" "(row + targetRow) div 2 \<noteq> row"
      "row \<noteq> targetRow"
      by arith+
    have "fst (movePiece s targetRow targetCol) = Inr True"
      using valid by (simp add: fst_movePiece)
    moreover have "cell (board (snd (movePiece s targetRow targetCol)))
        ((row + targetRow) div 2) ((col + targetCol) div 2) = Inr (Some [])"
      using rows dy by (simp add: after)
    moreover have "cell (board (snd (movePiece s targetRow targetCol))) row col = Inr (Some [])"
      using rows by (simp add: after)
    moreover have "cell (board (snd (movePiece s targetRow targetCol))) targetRow targetCol =
                Inr (Some (if (owner p = Some ''red'' \<and> targetRow = 0) \<or>
                              (owner p = Some ''black'' \<and> targetRow = 7)
                           then currentPlayer s @ ''-king'' else p))"
      by (simp add: after o)
    ultimately show ?thesis
      using True by simp
  next
    case False
    with v have "isValidMove s targetRow targetCol = Inr False"
      by simp
    then have "movePiece s targetRow targetCol = (Inr False, s\<lparr>selectedPiece := None\<rparr>)"
      by (rule movePiece_invalid)
    with False show ?thesis
      by simp
  qed
qed

text \<open>The red man at (4, 1) jumps the black man at (3, 2) and lands on (2, 3).\<close>

theorem jump_captures_witness:
  "well_formed last_capture \<and> selection_owned last_capture \<and>
   selectedPiece last_capture = Some (4, 1) \<and>
   cell (board last_capture) 4 1 = Inr (Some ''red'') \<and>
   cell (board last_capture) 2 3 = Inr (Some []) \<and>
   cell (board last_capture) ((4 + 2) div 2) ((1 + 3) div 2) = Inr (Some ''black'') \<and>
   \<bar>3 - 1\<bar> = (2::int) \<and> \<bar>2 - 4\<bar> = (2::int) \<and>
   fst (movePiece last_capture 2 3) = Inr True \<and>
   cell (board (snd (movePiece last_capture 2 3))) 3 2 = Inr (Some []) \<and>
   cell (board (snd (movePiece last_capture 2 3))) 4 1 = Inr (Some []) \<and>
   cell (board (snd (movePiece last_capture 2 3))) 2 3 = Inr (Some ''red'')"
proof -
  have h: "well_formed last_capture" "selection_owned last_capture"
    "selectedPiece last_capture = Some (4, 1)"
    "cell (board last_capture) 4 1 = Inr (Some ''red'')"
    "cell (board last_capture) 2 3 = Inr (Some [])"
    "cell (board last_capture) ((4 + 2) div 2) ((1 + 3) div 2) = Inr (Some ''black'')"
    by code_simp+
  have a: "\<bar>3 - 1\<bar> = (2::int)" "\<bar>2 - 4\<bar> = (2::int)"
    by simp_all
  from jump_captures [OF h a] h show ?thesis
    by (simp add: owner_def)
qed

text \<open>
  C5. After a successful \<open>movePiece\<close> of the selected piece \<open>p\<close> the target cell holds a
  piece \<open>q\<close> of the same owner. If the target row is the mover's far row (row 0 for red,
  row 7 for black) then \<open>q\<close> is that owner's king, in the same call; otherwise \<open>q\<close> is
  \<open>p\<close> itself. The tag changes only when a man reaches the far row: a king that lands
  there stays the king it was.
\<close>

theorem promotion_on_far_row:
  assumes wf: "well_formed s" and so: "selection_owned s"
    and sel: "selectedPiece s = Some (row, col)"
    and p: "cell (board s) row col = Inr (Some p)"
    and ok: "fst (movePiece s targetRow targetCol) = Inr True"
  shows "\<exists>q. cell (board (snd (movePiece s targetRow targetCol))) targetRow targetCol = Inr (Some q) \<and>
           q = (if (owner p = Some ''red'' \<and> targetRow = 0) \<or>
                   (owner p = Some ''black'' \<and> targetRow = 7)
                then currentPlayer s @ ''-king'' else p) \<and>
           owner q = owner p \<and>
           is_king q = (is_king p \<or> (owner p = Some ''red'' \<and> targetRow = 0)
                                  \<or> (owner p = Some ''black'' \<and> targetRow = 7)) \<and>
           (q = p) = (is_king p \<or> \<not> ((owner p = Some ''red'' \<and> targetRow = 0) \<or>
                                       (owner p = Some ''black'' \<and> targetRow = 7)))"
proof -
  from ok have valid: "isValidMove s targetRow targetCol = Inr True"
    by (simp add: fst_movePiece)
  from selected_piece [OF wf so sel] p have o: "owner p = Some (currentPlayer s)"
    and tag: "is_tag p"
    by simp_all
  from wf have cp: "currentPlayer s = ''red'' \<or> currentPlayer s = ''black''"
    by (simp add: well_formed_def)
  define q where "q = (if (owner p = Some ''red'' \<and> targetRow = 0) \<or>
                          (owner p = Some ''black'' \<and> targetRow = 7)
                       then currentPlayer s @ ''-king'' else p)"
  have "cell (board (snd (movePiece s targetRow targetCol))) targetRow targetCol = Inr (Some q)"
    by (simp add: movePiece_valid [OF sel p valid] o q_def)
  moreover have "owner q = owner p"
    using cp o by (auto simp: q_def owner_def split: if_splits)
  moreover have "is_king q = (is_king p \<or> (owner p = Some ''red'' \<and> targetRow = 0)
                                  \<or> (owner p = Some ''black'' \<and> targetRow = 7))"
    using cp o by (auto simp: q_def is_king_def owner_def split: if_splits)
  moreover have "(q = p) = (is_king p \<or> \<not> ((owner p = Some ''red'' \<and> targetRow = 0) \<or>
                                       (owner p = Some ''black'' \<and> targetRow = 7)))"
    using cp o tag by (auto simp: q_def is_king_def owner_def is_tag_def split: if_splits)
  ultimately show ?thesis
    using q_def by blast
qed

text \<open>The red man at (1, 2) steps onto (0, 1) and is a king there.\<close>

theorem promotion_on_far_row_witness:
  "well_formed before_promotion \<and> selection_owned before_promotion \<and>
   selectedPiece before_promotion = Some (1, 2) \<and>
   cell (board before_promotion) 1 2 = Inr (Some ''red'') \<and>
   fst (movePiece before_promotion 0 1) = Inr True \<and>
   (\<exists>q. cell (board (snd (movePiece before_promotion 0 1))) 0 1 = Inr (Some q) \<and>
        q = ''red-king'' \<and> owner q = Some ''red'' \<and> is_king q = True)"
proof -
  have h: "well_formed before_promotion" "selection_owned before_promotion"
    "selectedPiece before_promotion = Some (1, 2)"
    "cell (board before_promotion) 1 2 = Inr (Some ''red'')"
    "fst (movePiece before_promotion 0 1) = Inr True"
    by code_simp+
  have cp: "currentPlayer before_promotion = ''red''"
    by code_simp
  from promotion_on_far_row [OF h] h show ?thesis
    by (simp add: owner_def is_king_def cp)
qed

text \<open>
  C6. A successful \<open>movePiece\<close> ends by counting the pieces of both players on the board
  it has just changed and sets \<open>gameOver\<close> when one of the counts is zero, so the flag
  after the call is the flag before or-ed with that test. The count is the number of
  cells whose tag starts with the colour, which on a grid of tags is the number of cells
  holding a piece of that player. A call that does not succeed leaves the flag as it
  was, and so does every \<open>selectPiece\<close>. Hence no call of \<open>selectPiece\<close> or \<open>movePiece\<close>
  clears a set flag; \<open>initializeBoard\<close> does.
\<close>

theorem gameOver_set_once:
  "gameOver (snd (movePiece s targetRow targetCol)) =
     (if fst (movePiece s targetRow targetCol) = Inr True
      then gameOver s \<or> countPieces (snd (movePiece s targetRow targetCol)) ''red'' = 0
                      \<or> countPieces (snd (movePiece s targetRow targetCol)) ''black'' = 0
      else gameOver s) \<and>
   countPieces u color =
     card {(r, c). \<exists>p. cell (board u) r c = Inr (Some p) \<and> js_startsWith p color} \<and>
   (tag_grid (board u) \<longrightarrow>
      countPieces u ''red'' =
        card {(r, c). \<exists>p. cell (board u) r c = Inr (Some p) \<and> owner p = Some ''red''} \<and>
      countPieces u ''black'' =
        card {(r, c). \<exists>p. cell (board u) r c = Inr (Some p) \<and> owner p = Some ''black''}) \<and>
   gameOver (snd (selectPiece s row col)) = gameOver s \<and>
   (gameOver s \<longrightarrow> gameOver (snd (movePiece s targetRow targetCol))) \<and>
   gameOver (initializeBoard s) = False"
proof -
  have move: "gameOver (snd (movePiece s targetRow targetCol)) =
     (if fst (movePiece s targetRow targetCol) = Inr True
      then gameOver s \<or> countPieces (snd (movePiece s targetRow targetCol)) ''red'' = 0
                      \<or> countPieces (snd (movePiece s targetRow targetCol)) ''black'' = 0
      else gameOver s)"
  proof (cases "isValidMove s targetRow targetCol = Inr True")
    case True
    from isValidMove_True_cells [OF True]
    obtain r c p where "selectedPiece s = Some (r, c)" and "cell (board s) r c = Inr (Some p)"
      by blast
    from movePiece_valid(4) [OF this True] True show ?thesis
      by (simp add: fst_movePiece)
  next
    case False
    then show ?thesis
      by (simp add: fst_movePiece movePiece_not_valid)
  qed
  then have keep: "gameOver s \<longrightarrow> gameOver (snd (movePiece s targetRow targetCol))"
    by simp
  have cells: "countPieces u color =
     card {(r, c). \<exists>p. cell (board u) r c = Inr (Some p) \<and> js_startsWith p color}"
    by (rule countPieces_card)
  have owners: "tag_grid (board u) \<longrightarrow>
      countPieces u ''red'' =
        card {(r, c). \<exists>p. cell (board u) r c = Inr (Some p) \<and> owner p = Some ''red''} \<and>
      countPieces u ''black'' =
        card {(r, c). \<exists>p. cell (board u) r c = Inr (Some p) \<and> owner p = Some ''black''}"
    by (simp add: countPieces_owner)
  have rest: "gameOver (snd (selectPiece s row col)) = gameOver s"
    "gameOver (initializeBoard s) = False"
    by (simp_all add: selectPiece_fields initializeBoard_def)
  from move cells owners rest keep show ?thesis
    by (intro conjI)
qed

text \<open>
  Before the jump one cell holds a black piece; the jump that takes it leaves none and
  one red piece, and sets the flag in that call; a later \<open>selectPiece\<close> and a later
  \<open>movePiece\<close> keep it, \<open>initializeBoard\<close> clears it.
\<close>

theorem gameOver_set_once_witness:
  "gameOver last_capture = False \<and>
   fst (movePiece last_capture 2 3) = Inr True \<and>
   tag_grid (board (snd (movePiece last_capture 2 3))) \<and>
   card {(r, c). \<exists>p. cell (board (snd (movePiece last_capture 2 3))) r c = Inr (Some p) \<and>
                      owner p = Some ''black''} = 0 \<and>
   card {(r, c). \<exists>p. cell (board (snd (movePiece last_capture 2 3))) r c = Inr (Some p) \<and>
                      owner p = Some ''red''} = 1 \<and>
   card {(r, c). \<exists>p. cell (board last_capture) r c = Inr (Some p) \<and>
                      js_startsWith p ''black''} = 1 \<and>
   gameOver (snd (movePiece last_capture 2 3)) = True \<and>
   gameOver (snd (selectPiece (snd (movePiece last_capture 2 3)) 2 3)) = True \<and>
   gameOver (snd (movePiece (snd (movePiece last_capture 2 3)) 1 2)) = True \<and>
   gameOver (initializeBoard (snd (movePiece last_capture 2 3))) = False"
proof -
  have h: "gameOver last_capture = False" "fst (movePiece last_capture 2 3) = Inr True"
    "tag_grid (board (snd (movePiece last_capture 2 3)))"
    "countPieces (snd (movePiece last_capture 2 3)) ''black'' = 0"
    "countPieces (snd (movePiece last_capture 2 3)) ''red'' = 1"
    "countPieces last_capture ''black'' = 1"
    by code_simp+
  note first = gameOver_set_once [where s = last_capture and targetRow = 2 and targetCol = 3
      and u = "snd (movePiece last_capture 2 3)" and color = "''black''"]
  note before = gameOver_set_once [where u = last_capture and color = "''black''"]
  from first h have over: "gameOver (snd (movePiece last_capture 2 3)) = True"
    by simp
  note later = gameOver_set_once [where s = "snd (movePiece last_capture 2 3)"
      and targetRow = 1 and targetCol = 2 and row = 2 and col = 3]
  from first before later over h show ?thesis
    by simp
qed

text \<open>
  C7. For a cell inside the grid, \<open>selectPiece\<close> returns true and records the cell as
  the selection exactly when the cell holds a piece of the player to move; on an empty
  cell or a piece of the opponent it returns false and the state, selection included, is
  the one before the call. In both cases board and current player are untouched.
\<close>

theorem selectPiece_own_piece_only:
  assumes wf: "well_formed s" and grid: "in_grid row col"
  shows "\<exists>p. cell (board s) row col = Inr (Some p) \<and>
           selectPiece s row col =
             (if owner p = Some (currentPlayer s)
              then (Inr True, s\<lparr>selectedPiece := Some (row, col)\<rparr>)
              else (Inr False, s))"
proof -
  from wf have "tag_grid (board s)"
    and cp: "currentPlayer s = ''red'' \<or> currentPlayer s = ''black''"
    by (simp_all add: well_formed_def)
  with grid obtain p where p: "cell (board s) row col = Inr (Some p)" and "is_tag p"
    using tag_grid_cell by blast
  with cp have "js_startsWith p (currentPlayer s) = (owner p = Some (currentPlayer s))"
    by (simp add: startsWith_owner)
  with p show ?thesis
    by (simp add: selectPiece_def)
qed

text \<open>
  In the fresh game red's man at (5, 0) is selected; black's man at (2, 1) and the
  empty cell (4, 1) are not.
\<close>

theorem selectPiece_own_piece_only_witness:
  "well_formed new_GameService \<and> in_grid 5 0 \<and> in_grid 2 1 \<and> in_grid 4 1 \<and>
   selectPiece new_GameService 5 0 = (Inr True, new_GameService\<lparr>selectedPiece := Some (5, 0)\<rparr>) \<and>
   selectPiece new_GameService 2 1 = (Inr False, new_GameService) \<and>
   selectPiece new_GameService 4 1 = (Inr False, new_GameService)"
proof -
  have wf: "well_formed new_GameService"
    by (simp add: new_GameService_def well_formed_initializeBoard)
  have g: "in_grid 5 0" "in_grid 2 1" "in_grid 4 1"
    by (simp_all add: in_grid_def)
  have c: "cell (board new_GameService) 5 0 = Inr (Some ''red'')"
    "cell (board new_GameService) 2 1 = Inr (Some ''black'')"
    "cell (board new_GameService) 4 1 = Inr (Some [])"
    by (simp_all add: cell_new_GameService)
  from selectPiece_own_piece_only [OF wf g(1)] selectPiece_own_piece_only [OF wf g(2)]
    selectPiece_own_piece_only [OF wf g(3)] wf g show ?thesis
    by (simp add: c owner_def new_GameService_fields(2))
qed

text \<open>
  C8. A \<open>movePiece\<close> without a selection should return false and change nothing.
  The code destructures the absent selection in \<open>isValidMove\<close>: on the fresh
  service, whose selection is null, \<open>movePiece(4, 1)\<close> throws a \<open>TypeError\<close>; no field has
  changed when it does.
\<close>

theorem movePiece_without_selection_throws:
  "selectedPiece new_GameService = None \<and>
   movePiece new_GameService 4 1 = (Inl TypeError, new_GameService)"
  by (simp add: new_GameService_fields movePiece_def isValidMove_def)

text \<open>
  C9, in the form that holds. On the fresh board it is red's turn, so \<open>selectPiece(2, 1)\<close>
  on the black man returns false and selects nothing. After red's opening move on that
  board, \<open>selectPiece(5, 0)\<close> then \<open>movePiece(4, 1)\<close>, both succeeding, it is black's
  turn: \<open>selectPiece(2, 1)\<close> succeeds, the following \<open>movePiece(3, 2)\<close> succeeds,
  (2, 1) is empty, (3, 2) holds the black man and the turn is red's again.
\<close>

theorem black_opens_after_red:
  "selectPiece new_GameService 2 1 = (Inr False, new_GameService) \<and>
   fst (selectPiece new_GameService 5 0) = Inr True \<and>
   red_selected = snd (selectPiece new_GameService 5 0) \<and>
   fst (movePiece red_selected 4 1) = Inr True \<and>
   black_to_move = snd (movePiece red_selected 4 1) \<and>
   currentPlayer black_to_move = ''black'' \<and>
   cell (board black_to_move) 2 1 = Inr (Some ''black'') \<and>
   cell (board black_to_move) 3 2 = Inr (Some []) \<and>
   fst (selectPiece black_to_move 2 1) = Inr True \<and>
   fst (movePiece (snd (selectPiece black_to_move 2 1)) 3 2) = Inr True \<and>
   cell (board (snd (movePiece (snd (selectPiece black_to_move 2 1)) 3 2))) 2 1 = Inr (Some []) \<and>
   cell (board (snd (movePiece (snd (selectPiece black_to_move 2 1)) 3 2))) 3 2 = Inr (Some ''black'') \<and>
   currentPlayer (snd (movePiece (snd (selectPiece black_to_move 2 1)) 3 2)) = ''red''"
  by code_simp

text \<open>
  C9 as it was stated fails at its first step: on the fresh board \<open>selectPiece(2, 1)\<close>
  does not return true.
\<close>

theorem black_cannot_open_counterexample:
  "fst (selectPiece new_GameService 2 1) \<noteq> Inr True"
  by (simp add: selectPiece_def cell_new_GameService new_GameService_fields(2) js_startsWith_def)

text \<open>
  C10. In every state reachable through the three public methods, a selection points
  at a cell that holds a piece of the player to move. The owner of the piece being
  moved is therefore the current player, and validating a move with that owner in the
  place of \<open>currentPlayer\<close> gives the same result as the validation the code performs.
\<close>

theorem reachable_selection_owned:
  assumes "reachable s" and "selectedPiece s = Some (row, col)"
  shows "\<exists>p. cell (board s) row col = Inr (Some p) \<and>
           owner p = Some (currentPlayer s) \<and>
           isValidMove (s\<lparr>currentPlayer := the (owner p)\<rparr>) targetRow targetCol =
             isValidMove s targetRow targetCol"
proof -
  from assms(1) have "well_formed s" and "selection_owned s"
    by (simp_all add: reachable_invariant)
  from selected_piece [OF this assms(2)]
  obtain p where "cell (board s) row col = Inr (Some p)" and "owner p = Some (currentPlayer s)"
    by blast
  then show ?thesis
    by simp
qed

text \<open>The fresh game after red has selected the man at (5, 0).\<close>

theorem reachable_selection_owned_witness:
  "reachable red_selected \<and> selectedPiece red_selected = Some (5, 0) \<and>
   (\<exists>p. cell (board red_selected) 5 0 = Inr (Some p) \<and>
        owner p = Some (currentPlayer red_selected) \<and>
        isValidMove (red_selected\<lparr>currentPlayer := the (owner p)\<rparr>) 4 1 =
          isValidMove red_selected 4 1)"
proof -
  have r: "reachable red_selected"
    unfolding red_selected_def by (rule reachable.select) (rule reachable.construct)
  have sel: "selectedPiece red_selected = Some (5, 0)"
    by code_simp
  from reachable_selection_owned [OF r sel] r sel show ?thesis
    by simp
qed

end
